theory Spec2Isabelle
  imports Main "HOL-Library.Multiset"
begin

section \<open>The ScoNe notebook: data loader, train/dev split and zero-shot module\<close>

text \<open>
  The development embeds the code cells of \<^verbatim>\<open>examples/nli/scone/scone.ipynb\<close>:
  the function \<^verbatim>\<open>load_scone\<close> with its inner function \<^verbatim>\<open>as_example\<close>, the cell
  that seeds the generator, shuffles and slices the training examples, and the class
  \<^verbatim>\<open>ScoNeCoT\<close>.

  The notebook works on values of libraries it imports (pandas, glob, random, dspy).
  Their values are modelled by what the notebook can observe of them:
  \<^item> a cell of a data frame is a string, the missing value \<^verbatim>\<open>NaN\<close> (a float), a
    number or a boolean;
  \<^item> a row (a pandas Series indexed by column name) is a map from column names to
    cells;
  \<^item> a data frame is its list of column names and its list of rows;
  \<^item> a Python exception is a value of \<open>py_error\<close>, and a computation that may raise
    returns \<open>py_error + 'a\<close>, with \<open>Inl\<close> for the exception.
  Strings are \<open>string\<close>; the characters of the data are ASCII, and lower-casing is
  the ASCII one.
\<close>

subsection \<open>Values and exceptions\<close>

datatype cell = Str string | NaN | Num int | Bool bool

datatype py_error =
    KeyError string
  | IndexError
  | TypeError
  | ValueError
  | ReadError string

type_synonym row = "string \<rightharpoonup> cell"

text \<open>
  A \<^verbatim>\<open>dspy.Example\<close> built from a dictionary with the four keys of the notebook,
  and the input keys that \<^verbatim>\<open>with_inputs\<close> records.
\<close>

record Example =
  ex_context :: cell
  ex_question :: string
  ex_answer :: string
  ex_category :: cell
  input_keys :: "string list"

definition with_inputs :: "string list \<Rightarrow> Example \<Rightarrow> Example" where
  "with_inputs keys ex = ex\<lparr>input_keys := keys\<rparr>"

subsection \<open>Python string operations\<close>

text \<open>\<^verbatim>\<open>c.lower()\<close> on one ASCII character.\<close>

definition lower_char :: "char \<Rightarrow> char" where
  "lower_char c =
     (case map_of (zip ''ABCDEFGHIJKLMNOPQRSTUVWXYZ'' ''abcdefghijklmnopqrstuvwxyz'') c of
        Some l \<Rightarrow> l
      | None \<Rightarrow> c)"

definition py_lower :: "string \<Rightarrow> string" where
  "py_lower s = map lower_char s"

text \<open>
  \<^verbatim>\<open>s.strip(chars)\<close>: the characters of \<open>chars\<close> are removed from the left end and
  from the right end of \<open>s\<close>, as long as there are any.
\<close>

definition py_strip :: "string \<Rightarrow> string \<Rightarrow> string" where
  "py_strip chars s =
     rev (dropWhile (\<lambda>c. c \<in> set chars) (rev (dropWhile (\<lambda>c. c \<in> set chars) s)))"

text \<open>
  \<^verbatim>\<open>s.replace(old, new)\<close>: every occurrence of \<open>old\<close>, found from left to right
  without overlap, is replaced.
\<close>

fun py_replace :: "string \<Rightarrow> string \<Rightarrow> string \<Rightarrow> string" where
  "py_replace old new [] = (if old = [] then new else [])"
| "py_replace old new (c # cs) =
     (if old = [] then new @ c # py_replace old new cs
      else if take (length old) (c # cs) = old
           then new @ py_replace old new (drop (length old - 1) cs)
           else c # py_replace old new cs)"

text \<open>\<^verbatim>\<open>os.path.basename\<close>: what follows the last slash.\<close>

definition basename :: "string \<Rightarrow> string" where
  "basename p = rev (takeWhile (\<lambda>c. c \<noteq> CHR ''/'') (rev p))"

text \<open>
  \<^verbatim>\<open>v[0]\<close> and \<^verbatim>\<open>v[1:]\<close> on a cell. A string has a first character unless it is
  empty (\<^verbatim>\<open>IndexError\<close>); a float, an integer or a boolean cannot be subscripted
  (\<^verbatim>\<open>TypeError\<close>). A slice never leaves the string.
\<close>

definition subscript0 :: "cell \<Rightarrow> py_error + string" where
  "subscript0 v =
     (case v of
        Str s \<Rightarrow> (case s of [] \<Rightarrow> Inl IndexError | c # _ \<Rightarrow> Inr [c])
      | _ \<Rightarrow> Inl TypeError)"

definition slice_from1 :: "cell \<Rightarrow> py_error + string" where
  "slice_from1 v = (case v of Str s \<Rightarrow> Inr (drop 1 s) | _ \<Rightarrow> Inl TypeError)"

subsection \<open>\<^verbatim>\<open>as_example\<close>\<close>

text \<open>\<^verbatim>\<open>row[k]\<close>: a column the row does not have raises \<^verbatim>\<open>KeyError\<close>.\<close>

definition getitem :: "row \<Rightarrow> string \<Rightarrow> py_error + cell" where
  "getitem r k = (case r k of None \<Rightarrow> Inl (KeyError k) | Some v \<Rightarrow> Inr v)"

text \<open>
  The suffix of the column names: empty for the category \<^verbatim>\<open>one_scoped\<close>,
  \<^verbatim>\<open>_edited\<close> for any other value of the category cell.
\<close>

definition suffix_of :: "cell \<Rightarrow> string" where
  "suffix_of cat = (if cat = Str ''one_scoped'' then '''' else ''_edited'')"

text \<open>
  The body of \<^verbatim>\<open>as_example\<close>, statement by statement and in Python's order of
  evaluation: the category, the hypothesis and its first character, the rest of the
  hypothesis, the label, the premise, the category again.
\<close>

definition as_example :: "row \<Rightarrow> py_error + Example" where
  "as_example r =
     (case getitem r ''category'' of Inl e \<Rightarrow> Inl e | Inr cat \<Rightarrow>
     (let suffix = suffix_of cat;
          hkey = ''sentence2'' @ suffix
      in
     (case getitem r hkey of Inl e \<Rightarrow> Inl e | Inr h \<Rightarrow>
     (case subscript0 h of Inl e \<Rightarrow> Inl e | Inr c0 \<Rightarrow>
     (case slice_from1 h of Inl e \<Rightarrow> Inl e | Inr rest \<Rightarrow>
     (let question = py_lower c0 @ py_strip ''.'' rest;
          question = ''Can we logically conclude for sure that '' @ question @ ''?''
      in
     (case getitem r (''gold_label'' @ suffix) of Inl e \<Rightarrow> Inl e | Inr g \<Rightarrow>
     (let label = (if g = Str ''entailment'' then ''Yes'' else ''No'')
      in
     (case getitem r (''sentence1'' @ suffix) of Inl e \<Rightarrow> Inl e | Inr c \<Rightarrow>
     (case getitem r ''category'' of Inl e \<Rightarrow> Inl e | Inr cat' \<Rightarrow>
      Inr (with_inputs [''context'', ''question'']
            \<lparr>ex_context = c, ex_question = question, ex_answer = label,
             ex_category = cat', input_keys = []\<rparr>)))))))))))"

subsection \<open>Data frames\<close>

text \<open>
  A frame has its column names, in order, and its rows; a row gives the cell of each
  column of its frame, under the column's name.
\<close>

record frame =
  columns :: "string list"
  rows :: "row list"

text \<open>
  \<^verbatim>\<open>df[k] = v\<close> with a scalar \<open>v\<close>: the column \<open>k\<close> holds \<open>v\<close> in every row; it is
  added as the last column when the frame does not have it.
\<close>

definition set_column :: "string \<Rightarrow> cell \<Rightarrow> frame \<Rightarrow> frame" where
  "set_column k v df =
     \<lparr>columns = (if k \<in> set (columns df) then columns df else columns df @ [k]),
      rows = map (\<lambda>r. r(k \<mapsto> v)) (rows df)\<rparr>"

text \<open>
  \<^verbatim>\<open>pd.concat(dfs)\<close>, with its default outer join: no frame at all raises
  \<^verbatim>\<open>ValueError\<close>; the columns of the result are the columns of all the frames, in
  the order of their first appearance; the rows are the rows of all the frames, in
  order, and a row has \<^verbatim>\<open>NaN\<close> in a column its frame does not have.
\<close>

fun union_cols :: "string list \<Rightarrow> string list \<Rightarrow> string list" where
  "union_cols acc [] = acc"
| "union_cols acc (c # cs) = union_cols (if c \<in> set acc then acc else acc @ [c]) cs"

definition all_columns :: "frame list \<Rightarrow> string list" where
  "all_columns dfs = foldl union_cols [] (map columns dfs)"

definition reindex_row :: "string list \<Rightarrow> row \<Rightarrow> row" where
  "reindex_row cols r =
     (\<lambda>c. if c \<in> set cols then Some (case r c of None \<Rightarrow> NaN | Some v \<Rightarrow> v) else None)"

definition reindex :: "string list \<Rightarrow> frame \<Rightarrow> row list" where
  "reindex cols df = map (reindex_row cols) (rows df)"

definition concat_frames :: "frame list \<Rightarrow> py_error + frame" where
  "concat_frames dfs =
     (if dfs = [] then Inl ValueError
      else let cols = all_columns dfs
           in Inr \<lparr>columns = cols, rows = concat (map (reindex cols) dfs)\<rparr>)"

text \<open>
  \<^verbatim>\<open>list(df.apply(f, axis=1).values)\<close>: \<open>f\<close> is called on each row, in order, and
  the first exception ends the call. On a frame without rows pandas returns an empty
  result and keeps no exception of \<open>f\<close>, so the list is empty.
\<close>

fun map_err :: "('a \<Rightarrow> py_error + 'b) \<Rightarrow> 'a list \<Rightarrow> py_error + 'b list" where
  "map_err f [] = Inr []"
| "map_err f (x # xs) =
     (case f x of Inl e \<Rightarrow> Inl e | Inr y \<Rightarrow>
     (case map_err f xs of Inl e \<Rightarrow> Inl e | Inr ys \<Rightarrow> Inr (y # ys)))"

definition apply_axis1 :: "(row \<Rightarrow> py_error + 'b) \<Rightarrow> frame \<Rightarrow> py_error + 'b list" where
  "apply_axis1 f df = map_err f (rows df)"

subsection \<open>\<^verbatim>\<open>load_scone\<close>\<close>

text \<open>
  The file system is a parameter: \<open>glob\<close> gives the paths that match a pattern, in the
  order of enumeration, and \<open>read_csv\<close> gives the frame that
  \<^verbatim>\<open>pd.read_csv(filename, index_col=0)\<close> parses from a path, or the exception it
  raises. The loop reads the files in order; each frame gets its category column.
\<close>

definition category_of :: "string \<Rightarrow> string" where
  "category_of filename = py_replace ''.csv'' '''' (basename filename)"

fun read_frames :: "(string \<Rightarrow> py_error + frame) \<Rightarrow> string list \<Rightarrow> py_error + frame list" where
  "read_frames read_csv [] = Inr []"
| "read_frames read_csv (filename # rest) =
     (case read_csv filename of Inl e \<Rightarrow> Inl e | Inr df \<Rightarrow>
     (case read_frames read_csv rest of Inl e \<Rightarrow> Inl e | Inr dfs \<Rightarrow>
      Inr (set_column ''category'' (Str (category_of filename)) df # dfs)))"

definition load_scone ::
  "(string \<Rightarrow> string list) \<Rightarrow> (string \<Rightarrow> py_error + frame) \<Rightarrow> string \<Rightarrow> py_error + Example list"
where
  "load_scone glob read_csv dirname =
     (case read_frames read_csv (glob (dirname @ ''/*.csv'')) of Inl e \<Rightarrow> Inl e | Inr dfs \<Rightarrow>
     (case concat_frames dfs of Inl e \<Rightarrow> Inl e | Inr data_df \<Rightarrow>
      apply_axis1 as_example data_df))"

subsection \<open>Rows of a directory\<close>

text \<open>
  The number of data rows in the files of a directory, and what makes a row of a file
  a valid one: the file has the three columns that its category selects, and the row
  has a string with at least one character as its hypothesis and a cell for its
  label and its premise.
\<close>

definition total_rows :: "(string \<Rightarrow> py_error + frame) \<Rightarrow> string list \<Rightarrow> nat" where
  "total_rows read_csv files =
     sum_list (map (\<lambda>f. case read_csv f of Inl e \<Rightarrow> 0 | Inr df \<Rightarrow> length (rows df)) files)"

definition nonempty_str :: "cell option \<Rightarrow> bool" where
  "nonempty_str v = (case v of Some (Str (c # t)) \<Rightarrow> True | _ \<Rightarrow> False)"

definition valid_row :: "string \<Rightarrow> frame \<Rightarrow> row \<Rightarrow> bool" where
  "valid_row filename df r =
     (let suffix = suffix_of (Str (category_of filename))
      in list_all (\<lambda>k. k \<in> set (columns df) \<and> r k \<noteq> None)
           [''sentence2'' @ suffix, ''gold_label'' @ suffix, ''sentence1'' @ suffix]
         \<and> nonempty_str (r (''sentence2'' @ suffix)))"

definition valid_file :: "(string \<Rightarrow> py_error + frame) \<Rightarrow> string \<Rightarrow> bool" where
  "valid_file read_csv f =
     (case read_csv f of Inl e \<Rightarrow> False | Inr df \<Rightarrow> list_all (valid_row f df) (rows df))"

text \<open>Whether some file of the directory that can be read has a column of a given name.\<close>

definition has_column :: "(string \<Rightarrow> py_error + frame) \<Rightarrow> string list \<Rightarrow> string \<Rightarrow> bool" where
  "has_column read_csv files k =
     list_ex (\<lambda>f. case read_csv f of Inl e \<Rightarrow> False | Inr df \<Rightarrow> k \<in> set (columns df)) files"

subsection \<open>A small directory\<close>

text \<open>
  Five files as \<^verbatim>\<open>pd.read_csv\<close> returns them, for the examples below: a file in the
  format of \<^verbatim>\<open>one_scoped\<close>, a file in the format of the other categories, a file
  with a header and no data row, a file without the column \<^verbatim>\<open>gold_label_edited\<close>,
  and a file with a row that has no hypothesis. Any other path cannot be read.
\<close>

definition sample_read_csv :: "string \<Rightarrow> py_error + frame" where
  "sample_read_csv filename =
     (if filename = ''ScoNe/train/one_scoped.csv'' then
        Inr \<lparr>columns = [''sentence1'', ''sentence2'', ''gold_label''],
             rows = [[''sentence1'' \<mapsto> Str ''The man does not own a dog.'',
                      ''sentence2'' \<mapsto> Str ''The man does not own a poodle.'',
                      ''gold_label'' \<mapsto> Str ''entailment''],
                     [''sentence1'' \<mapsto> Str ''The man does not own a poodle.'',
                      ''sentence2'' \<mapsto> Str ''The man does not own a dog.'',
                      ''gold_label'' \<mapsto> Str ''neutral'']]\<rparr>
      else if filename = ''ScoNe/train/no_negation.csv'' then
        Inr \<lparr>columns = [''sentence1_edited'', ''sentence2_edited'', ''gold_label_edited''],
             rows = [[''sentence1_edited'' \<mapsto> Str ''A man owns a poodle.'',
                      ''sentence2_edited'' \<mapsto> Str ''A man owns a dog.'',
                      ''gold_label_edited'' \<mapsto> Str ''entailment'']]\<rparr>
      else if filename = ''ScoNe/train/header_only.csv'' then
        Inr \<lparr>columns = [''sentence1_edited'', ''sentence2_edited'', ''gold_label_edited''],
             rows = []\<rparr>
      else if filename = ''ScoNe/train/no_label.csv'' then
        Inr \<lparr>columns = [''sentence1_edited'', ''sentence2_edited''],
             rows = [[''sentence1_edited'' \<mapsto> Str ''A man owns a poodle.'',
                      ''sentence2_edited'' \<mapsto> Str ''A man owns a dog.'']]\<rparr>
      else if filename = ''ScoNe/train/no_hypothesis.csv'' then
        Inr \<lparr>columns = [''sentence1_edited'', ''sentence2_edited'', ''gold_label_edited''],
             rows = [[''sentence1_edited'' \<mapsto> Str ''A man owns a poodle.'',
                      ''sentence2_edited'' \<mapsto> NaN,
                      ''gold_label_edited'' \<mapsto> Str ''entailment'']]\<rparr>
      else Inl (ReadError filename))"

subsection \<open>The train and dev samples\<close>

text \<open>
  \<^verbatim>\<open>random.seed(1); random.shuffle(all_train)\<close> works on the generator of the
  module \<^verbatim>\<open>random\<close>, a state shared by the whole process. The generator is a
  parameter: \<open>seed\<close> gives the state that seeding with a number leaves, whatever the
  state was, and \<open>randbelow n\<close> draws a number below \<open>n\<close> and steps the state.

  \<^verbatim>\<open>shuffle\<close> is the library's loop: for \<open>i\<close> from the last index down to 1, draw
  \<open>j = randbelow(i + 1)\<close> and exchange \<open>x[i]\<close> and \<open>x[j]\<close>. An index outside the
  list raises \<^verbatim>\<open>IndexError\<close>.
\<close>

definition swap :: "nat \<Rightarrow> nat \<Rightarrow> 'a list \<Rightarrow> py_error + 'a list" where
  "swap i j x =
     (if i < length x \<and> j < length x then Inr (x[i := x ! j, j := x ! i]) else Inl IndexError)"

fun shuffle_from ::
  "(nat \<Rightarrow> 'g \<Rightarrow> nat \<times> 'g) \<Rightarrow> nat \<Rightarrow> 'a list \<Rightarrow> 'g \<Rightarrow> (py_error + 'a list) \<times> 'g"
where
  "shuffle_from randbelow 0 x g = (Inr x, g)"
| "shuffle_from randbelow (Suc k) x g =
     (let (j, g') = randbelow (Suc k + 1) g
      in (case swap (Suc k) j x of
            Inl e \<Rightarrow> (Inl e, g')
          | Inr x' \<Rightarrow> shuffle_from randbelow k x' g'))"

definition shuffle ::
  "(nat \<Rightarrow> 'g \<Rightarrow> nat \<times> 'g) \<Rightarrow> 'a list \<Rightarrow> 'g \<Rightarrow> (py_error + 'a list) \<times> 'g"
where
  "shuffle randbelow x g = shuffle_from randbelow (length x - 1) x g"

text \<open>
  The cell: seed with 1, shuffle, then \<^verbatim>\<open>all_train[: 200]\<close> and
  \<^verbatim>\<open>all_train[200: 250]\<close>. It starts in the generator state \<open>g0\<close> that earlier
  cells left.
\<close>

definition train_dev ::
  "(int \<Rightarrow> 'g) \<Rightarrow> (nat \<Rightarrow> 'g \<Rightarrow> nat \<times> 'g) \<Rightarrow> 'a list \<Rightarrow> 'g
     \<Rightarrow> (py_error + 'a list \<times> 'a list) \<times> 'g"
where
  "train_dev seed randbelow all_train g0 =
     (let g1 = seed 1;
          (r, g2) = shuffle randbelow all_train g1
      in (case r of
            Inl e \<Rightarrow> (Inl e, g2)
          | Inr xs \<Rightarrow> (Inr (take 200 xs, take (250 - 200) (drop 200 xs)), g2)))"

subsection \<open>The zero-shot module\<close>

text \<open>
  \<^verbatim>\<open>ScoNeSignature\<close> is data: the instruction and the declared fields.
  \<^verbatim>\<open>dspy.ChainOfThought\<close> is the external capability, a parameter: from a signature
  it gives a predictor, which takes the two input fields and the state \<open>'w\<close> of the
  world outside the notebook (the model endpoint, its cache, the demonstrations the
  predictor holds) and returns a prediction \<open>'p\<close> and the next state.
\<close>

record signature =
  instructions :: string
  input_fields :: "string list"
  output_fields :: "(string \<times> string) list"

definition ScoNeSignature :: signature where
  "ScoNeSignature =
     \<lparr>instructions =
        ''You are given some context (a premise) and a question (a hypothesis). '' @
        ''You must indicate with Yes/No answer whether we can logically '' @
        ''conclude the hypothesis from the premise.'',
      input_fields = [''context'', ''question''],
      output_fields = [(''answer'', ''Yes or No'')]\<rparr>"

type_synonym ('w, 'p) predictor = "string \<Rightarrow> string \<Rightarrow> 'w \<Rightarrow> 'p \<times> 'w"

record ('w, 'p) ScoNeCoT =
  generate_answer :: "('w, 'p) predictor"

text \<open>\<^verbatim>\<open>__init__\<close> stores the predictor; \<^verbatim>\<open>forward\<close> calls it.\<close>

definition init :: "(signature \<Rightarrow> ('w, 'p) predictor) \<Rightarrow> ('w, 'p) ScoNeCoT" where
  "init ChainOfThought = \<lparr>generate_answer = ChainOfThought ScoNeSignature\<rparr>"

definition forward :: "('w, 'p) ScoNeCoT \<Rightarrow> string \<Rightarrow> string \<Rightarrow> 'w \<Rightarrow> 'p \<times> 'w" where
  "forward self ctx question w = generate_answer self ctx question w"

text \<open>
  To count the calls of the capability, a predictor is run beside a log: every call
  appends its two arguments to the log, and nothing else writes to it.
\<close>

definition logged ::
  "('w, 'p) predictor \<Rightarrow> ('w \<times> (string \<times> string) list, 'p) predictor"
where
  "logged predict ctx question s =
     (let (p, w') = predict ctx question (fst s)
      in (p, (w', snd s @ [(ctx, question)])))"

section \<open>Auxiliary facts\<close>

lemma getitem_Some: "r k = Some v \<Longrightarrow> getitem r k = Inr v"
  by (simp add: getitem_def)

lemma as_example_success:
  assumes "r ''category'' = Some cat"
    and "r (''sentence2'' @ suffix_of cat) = Some (Str (c # t))"
    and "r (''gold_label'' @ suffix_of cat) = Some g"
    and "r (''sentence1'' @ suffix_of cat) = Some p"
  shows "as_example r =
           Inr \<lparr>ex_context = p,
                ex_question = ''Can we logically conclude for sure that '' @
                              lower_char c # py_strip ''.'' t @ ''?'',
                ex_answer = (if g = Str ''entailment'' then ''Yes'' else ''No''),
                ex_category = cat,
                input_keys = [''context'', ''question'']\<rparr>"
  using assms
  by (simp add: as_example_def getitem_Some subscript0_def slice_from1_def py_lower_def
      with_inputs_def Let_def)

lemma as_example_Inr_D:
  assumes "as_example r = Inr ex"
  shows "\<exists>cat c t g p. r ''category'' = Some cat
            \<and> r (''sentence2'' @ suffix_of cat) = Some (Str (c # t))
            \<and> r (''gold_label'' @ suffix_of cat) = Some g
            \<and> r (''sentence1'' @ suffix_of cat) = Some p"
  using assms
  by (auto simp: as_example_def getitem_def subscript0_def slice_from1_def Let_def
      split: option.splits sum.splits cell.splits list.splits)

lemma py_strip_decomp:
  "\<exists>a b. s = a @ py_strip cs s @ b \<and> set a \<subseteq> set cs \<and> set b \<subseteq> set cs"
proof -
  let ?P = "\<lambda>c. c \<in> set cs"
  let ?m = "dropWhile ?P s"
  have 1: "s = takeWhile ?P s @ ?m" by simp
  have "?m = rev (takeWhile ?P (rev ?m) @ dropWhile ?P (rev ?m))"
    by (simp only: takeWhile_dropWhile_id rev_rev_ident)
  also have "\<dots> = rev (dropWhile ?P (rev ?m)) @ rev (takeWhile ?P (rev ?m))"
    by (rule rev_append)
  finally have 3: "?m = py_strip cs s @ rev (takeWhile ?P (rev ?m))"
    by (simp only: py_strip_def)
  have "s = takeWhile ?P s @ py_strip cs s @ rev (takeWhile ?P (rev ?m))"
    using 1 3 by metis
  moreover have "set (takeWhile ?P s) \<subseteq> set cs"
    by (auto dest: set_takeWhileD)
  moreover have "set (rev (takeWhile ?P (rev ?m))) \<subseteq> set cs"
    by (auto dest: set_takeWhileD)
  ultimately show ?thesis by blast
qed

lemma py_strip_ends:
  assumes "py_strip cs s \<noteq> []"
  shows "hd (py_strip cs s) \<notin> set cs \<and> last (py_strip cs s) \<notin> set cs"
proof -
  let ?P = "\<lambda>c. c \<in> set cs"
  let ?m = "dropWhile ?P s"
  let ?n = "dropWhile ?P (rev ?m)"
  have n: "?n \<noteq> []" using assms by (simp add: py_strip_def)
  then have hn: "\<not> ?P (hd ?n)" by (rule hd_dropWhile)
  have l: "last (py_strip cs s) = hd ?n"
    using n by (simp add: py_strip_def last_rev)
  have m: "?m \<noteq> []"
  proof
    assume "?m = []"
    then have "?n = dropWhile ?P (rev [])" by (rule arg_cong)
    with n show False by simp
  qed
  then have hm: "\<not> ?P (hd ?m)" by (rule hd_dropWhile)
  have "last (rev ?m) = hd ?m" using m by (simp add: last_rev)
  moreover have "last ?n = last (rev ?m)"
    using n by (metis last_appendR takeWhile_dropWhile_id)
  ultimately have "hd (py_strip cs s) = hd ?m"
    using n by (simp add: py_strip_def hd_rev)
  with hm hn l show ?thesis by simp
qed


section \<open>Properties of \<^verbatim>\<open>as_example\<close>\<close>

lemma suffix_of_cases: "suffix_of cat = (if cat = Str ''one_scoped'' then [] else ''_edited'')"
  by (simp add: suffix_of_def)

text \<open>
  Claim C1. For a row on which \<^verbatim>\<open>as_example\<close> returns an Example, the answer of the
  Example is "Yes" exactly when the gold-label cell of the row is the string
  "entailment", and "No" exactly when it is anything else. The gold-label cell is
  the one in the column \<^verbatim>\<open>gold_label\<close> for the category \<^verbatim>\<open>one_scoped\<close> and in
  the column \<^verbatim>\<open>gold_label_edited\<close> for any other category.
\<close>

theorem answer_yes_iff_entailment:
  assumes "r ''category'' = Some cat"
    and "as_example r = Inr ex"
  shows "(ex_answer ex = ''Yes'' \<longleftrightarrow>
            r (if cat = Str ''one_scoped'' then ''gold_label'' else ''gold_label_edited'')
              = Some (Str ''entailment''))
       \<and> (ex_answer ex = ''No'' \<longleftrightarrow>
            r (if cat = Str ''one_scoped'' then ''gold_label'' else ''gold_label_edited'')
              \<noteq> Some (Str ''entailment''))"
proof -
  from as_example_Inr_D [OF assms(2)] assms(1)
  obtain c t g p where
    h: "r (''sentence2'' @ suffix_of cat) = Some (Str (c # t))" and
    g: "r (''gold_label'' @ suffix_of cat) = Some g" and
    p: "r (''sentence1'' @ suffix_of cat) = Some p"
    by auto
  have key: "''gold_label'' @ suffix_of cat =
               (if cat = Str ''one_scoped'' then ''gold_label'' else ''gold_label_edited'')"
    by (simp add: suffix_of_cases)
  have "ex_answer ex = (if g = Str ''entailment'' then ''Yes'' else ''No'')"
    using as_example_success [OF assms(1) h g p] assms(2) by simp
  then show ?thesis
    using g unfolding key by (cases "g = Str ''entailment''") simp_all
qed

theorem answer_yes_iff_entailment_witness:
  "as_example [''category'' \<mapsto> Str ''no_negation'',
               ''sentence1_edited'' \<mapsto> Str ''A man is walking.'',
               ''sentence2_edited'' \<mapsto> Str ''A person is walking.'',
               ''gold_label_edited'' \<mapsto> Str ''entailment'']
     = Inr \<lparr>ex_context = Str ''A man is walking.'',
            ex_question = ''Can we logically conclude for sure that a person is walking?'',
            ex_answer = ''Yes'', ex_category = Str ''no_negation'',
            input_keys = [''context'', ''question'']\<rparr>
   \<and> (ex_answer \<lparr>ex_context = Str ''A man is walking.'',
            ex_question = ''Can we logically conclude for sure that a person is walking?'',
            ex_answer = ''Yes'', ex_category = Str ''no_negation'',
            input_keys = [''context'', ''question'']\<rparr> = ''Yes''
        \<longleftrightarrow> [''category'' \<mapsto> Str ''no_negation'',
               ''sentence1_edited'' \<mapsto> Str ''A man is walking.'',
               ''sentence2_edited'' \<mapsto> Str ''A person is walking.'',
               ''gold_label_edited'' \<mapsto> Str ''entailment''] ''gold_label_edited''
             = Some (Str ''entailment''))"
proof -
  let ?r = "[''category'' \<mapsto> Str ''no_negation'',
             ''sentence1_edited'' \<mapsto> Str ''A man is walking.'',
             ''sentence2_edited'' \<mapsto> Str ''A person is walking.'',
             ''gold_label_edited'' \<mapsto> Str ''entailment'']"
  let ?ex = "\<lparr>ex_context = Str ''A man is walking.'',
            ex_question = ''Can we logically conclude for sure that a person is walking?'',
            ex_answer = ''Yes'', ex_category = Str ''no_negation'',
            input_keys = [''context'', ''question'']\<rparr>"
  have c: "?r ''category'' = Some (Str ''no_negation'')" by simp
  have e: "as_example ?r = Inr ?ex"
    by (simp add: as_example_def getitem_def suffix_of_def subscript0_def slice_from1_def
        py_lower_def lower_char_def py_strip_def with_inputs_def)
  from answer_yes_iff_entailment [OF c e] e show ?thesis by simp
qed

text \<open>
  Claim C3. A row whose hypothesis cell is "there is not a single dog" and whose
  gold-label cell is "entailment" (in the columns that the row's category selects,
  \<^verbatim>\<open>sentence2\<close> and \<^verbatim>\<open>gold_label\<close> for \<^verbatim>\<open>one_scoped\<close>), and which has a premise
  cell, gives the Example with the question "Can we logically conclude for sure that
  there is not a single dog?" and the answer "Yes".
\<close>

theorem single_dog_scenario:
  assumes "r ''category'' = Some cat"
    and "r (''sentence2'' @ suffix_of cat) = Some (Str ''there is not a single dog'')"
    and "r (''gold_label'' @ suffix_of cat) = Some (Str ''entailment'')"
    and "r (''sentence1'' @ suffix_of cat) = Some p"
  shows "as_example r =
           Inr \<lparr>ex_context = p,
                ex_question =
                  ''Can we logically conclude for sure that there is not a single dog?'',
                ex_answer = ''Yes'',
                ex_category = cat,
                input_keys = [''context'', ''question'']\<rparr>"
  using as_example_success [OF assms]
  by (simp add: lower_char_def py_strip_def)

theorem single_dog_scenario_witness:
  "as_example [''category'' \<mapsto> Str ''one_scoped'', ''sentence1'' \<mapsto> Str ''There is not a single animal.'',
               ''sentence2'' \<mapsto> Str ''there is not a single dog'',
               ''gold_label'' \<mapsto> Str ''entailment'']
     = Inr \<lparr>ex_context = Str ''There is not a single animal.'',
            ex_question =
              ''Can we logically conclude for sure that there is not a single dog?'',
            ex_answer = ''Yes'', ex_category = Str ''one_scoped'',
            input_keys = [''context'', ''question'']\<rparr>"
  by (rule single_dog_scenario) (simp_all add: suffix_of_def)

text \<open>
  Claim C9. For a row with a non-empty hypothesis string \<open>h\<close>, the question of the
  constructed Example is "Can we logically conclude for sure that ", the first
  character of \<open>h\<close> in lower case, a string \<open>t\<close> and "?", where \<open>t\<close> is what is left
  of the rest of \<open>h\<close> once the periods at its left end and at its right end are
  removed: the rest of \<open>h\<close> is \<open>a @ t @ b\<close> with only periods in \<open>a\<close> and in \<open>b\<close>,
  and \<open>t\<close> neither starts nor ends with a period. No character of \<open>t\<close> is changed.
\<close>

theorem question_format:
  assumes "r ''category'' = Some cat"
    and "r (''sentence2'' @ suffix_of cat) = Some (Str h)"
    and "h \<noteq> []"
    and "as_example r = Inr ex"
  shows "\<exists>t a b.
           ex_question ex =
             ''Can we logically conclude for sure that '' @ lower_char (hd h) # t @ ''?''
         \<and> t = py_strip ''.'' (tl h)
         \<and> tl h = a @ t @ b
         \<and> set a \<subseteq> {CHR ''.''} \<and> set b \<subseteq> {CHR ''.''}
         \<and> (t \<noteq> [] \<longrightarrow> hd t \<noteq> CHR ''.'' \<and> last t \<noteq> CHR ''.'')"
proof -
  from assms(3) obtain c rest where h: "h = c # rest" by (cases h) auto
  from as_example_Inr_D [OF assms(4)] assms(1)
  obtain g p where
    g: "r (''gold_label'' @ suffix_of cat) = Some g" and
    p: "r (''sentence1'' @ suffix_of cat) = Some p"
    by auto
  have q: "ex_question ex =
             ''Can we logically conclude for sure that '' @
             lower_char (hd h) # py_strip ''.'' (tl h) @ ''?''"
    using as_example_success [OF assms(1) assms(2) [unfolded h] g p] assms(4) h by simp
  obtain a b where
    d: "tl h = a @ py_strip ''.'' (tl h) @ b" and
    a: "set a \<subseteq> set ''.''" and
    b: "set b \<subseteq> set ''.''"
    using py_strip_decomp [of "tl h" "''.''"] by blast
  have e: "py_strip ''.'' (tl h) \<noteq> [] \<longrightarrow>
             hd (py_strip ''.'' (tl h)) \<noteq> CHR ''.'' \<and> last (py_strip ''.'' (tl h)) \<noteq> CHR ''.''"
    using py_strip_ends [of "''.''" "tl h"] by simp
  from q d a b e show ?thesis by (intro exI [of _ "py_strip ''.'' (tl h)"] exI [of _ a] exI [of _ b]) simp
qed

theorem question_format_witness:
  "\<exists>t a b.
     ''Can we logically conclude for sure that aDog barks?'' =
       ''Can we logically conclude for sure that '' @ lower_char (hd ''A...Dog barks..'') # t @ ''?''
   \<and> t = py_strip ''.'' (tl ''A...Dog barks..'')
   \<and> tl ''A...Dog barks..'' = a @ t @ b
   \<and> set a \<subseteq> {CHR ''.''} \<and> set b \<subseteq> {CHR ''.''}
   \<and> (t \<noteq> [] \<longrightarrow> hd t \<noteq> CHR ''.'' \<and> last t \<noteq> CHR ''.'')"
proof -
  let ?r = "[''category'' \<mapsto> Str ''one_scoped'', ''sentence1'' \<mapsto> Str ''A dog barks.'',
             ''sentence2'' \<mapsto> Str ''A...Dog barks..'', ''gold_label'' \<mapsto> Str ''neutral'']"
  let ?ex = "\<lparr>ex_context = Str ''A dog barks.'',
            ex_question = ''Can we logically conclude for sure that aDog barks?'',
            ex_answer = ''No'', ex_category = Str ''one_scoped'',
            input_keys = [''context'', ''question'']\<rparr>"
  have c: "?r ''category'' = Some (Str ''one_scoped'')" by simp
  have h: "?r (''sentence2'' @ suffix_of (Str ''one_scoped'')) = Some (Str ''A...Dog barks..'')"
    by (simp add: suffix_of_def)
  have n: "''A...Dog barks..'' \<noteq> []" by simp
  have e: "as_example ?r = Inr ?ex"
    by (simp add: as_example_def getitem_def suffix_of_def subscript0_def slice_from1_def
        py_lower_def lower_char_def py_strip_def with_inputs_def)
  from question_format [OF c h n e] show ?thesis
    by (simp add: lower_char_def py_strip_def)
qed

text \<open>
  Claim C10. A row whose hypothesis cell is the empty string makes \<^verbatim>\<open>as_example\<close>
  fail: taking the first character raises \<^verbatim>\<open>IndexError\<close>, and no Example is built.
\<close>

theorem empty_hypothesis_fails:
  assumes "r ''category'' = Some cat"
    and "r (''sentence2'' @ suffix_of cat) = Some (Str '''')"
  shows "as_example r = Inl IndexError"
  using assms by (simp add: as_example_def getitem_def subscript0_def Let_def)

theorem empty_hypothesis_fails_witness:
  "as_example [''category'' \<mapsto> Str ''one_scoped'', ''sentence1'' \<mapsto> Str ''A dog barks.'',
               ''sentence2'' \<mapsto> Str '''', ''gold_label'' \<mapsto> Str ''neutral'']
     = Inl IndexError"
  by (rule empty_hypothesis_fails) (simp_all add: suffix_of_def)

text \<open>
  Claim C2, as amended. The category cell alone selects the columns that
  \<^verbatim>\<open>as_example\<close> reads: the columns \<^verbatim>\<open>sentence1\<close>, \<^verbatim>\<open>sentence2\<close> and
  \<^verbatim>\<open>gold_label\<close> for the category \<^verbatim>\<open>one_scoped\<close>, and for any other category these
  three names with the suffix \<^verbatim>\<open>_edited\<close>. The suffix is on all three source
  fields. Two rows of one category that agree on the three selected columns give the
  same result, whatever their other columns hold; and the premise, the question and
  the answer of the Example come from the selected premise, hypothesis and label
  columns.
\<close>

theorem source_columns_by_category:
  assumes "r ''category'' = Some cat"
    and "sfx = (if cat = Str ''one_scoped'' then '''' else ''_edited'')"
  shows "(\<forall>r'. r' ''category'' = Some cat
              \<and> r' (''sentence1'' @ sfx) = r (''sentence1'' @ sfx)
              \<and> r' (''sentence2'' @ sfx) = r (''sentence2'' @ sfx)
              \<and> r' (''gold_label'' @ sfx) = r (''gold_label'' @ sfx)
            \<longrightarrow> as_example r' = as_example r)
       \<and> (\<forall>ex. as_example r = Inr ex \<longrightarrow>
             r (''sentence1'' @ sfx) = Some (ex_context ex)
           \<and> (\<exists>c t. r (''sentence2'' @ sfx) = Some (Str (c # t))
                  \<and> ex_question ex = ''Can we logically conclude for sure that '' @
                                      lower_char c # py_strip ''.'' t @ ''?'')
           \<and> ex_answer ex =
               (if r (''gold_label'' @ sfx) = Some (Str ''entailment'') then ''Yes'' else ''No''))"
proof -
  have sfx: "sfx = suffix_of cat"
    using assms(2) by (simp add: suffix_of_cases)
  show ?thesis
  proof (intro conjI allI impI)
  fix r'
  assume "r' ''category'' = Some cat
              \<and> r' (''sentence1'' @ sfx) = r (''sentence1'' @ sfx)
              \<and> r' (''sentence2'' @ sfx) = r (''sentence2'' @ sfx)
              \<and> r' (''gold_label'' @ sfx) = r (''gold_label'' @ sfx)"
  then have c': "r' ''category'' = Some cat"
    and k1: "r' (''sentence1'' @ suffix_of cat) = r (''sentence1'' @ suffix_of cat)"
    and k2: "r' (''sentence2'' @ suffix_of cat) = r (''sentence2'' @ suffix_of cat)"
    and k3: "r' (''gold_label'' @ suffix_of cat) = r (''gold_label'' @ suffix_of cat)"
    unfolding sfx by blast+
  show "as_example r' = as_example r"
    by (simp only: as_example_def getitem_def Let_def option.case sum.case c' assms(1) k1 k2 k3)
next
  fix ex
  assume ex: "as_example r = Inr ex"
  from as_example_Inr_D [OF ex] assms(1)
  obtain c t g p where
    h: "r (''sentence2'' @ suffix_of cat) = Some (Str (c # t))" and
    g: "r (''gold_label'' @ suffix_of cat) = Some g" and
    p: "r (''sentence1'' @ suffix_of cat) = Some p"
    by auto
  note s = as_example_success [OF assms(1) h g p]
  show "r (''sentence1'' @ sfx) = Some (ex_context ex)"
    using s ex p sfx by simp
  show "\<exists>c t. r (''sentence2'' @ sfx) = Some (Str (c # t))
                  \<and> ex_question ex = ''Can we logically conclude for sure that '' @
                                      lower_char c # py_strip ''.'' t @ ''?''"
    using s ex h sfx by simp
  show "ex_answer ex =
               (if r (''gold_label'' @ sfx) = Some (Str ''entailment'') then ''Yes'' else ''No'')"
    using s ex g sfx by simp
  qed
qed

theorem source_columns_by_category_witness:
  "as_example [''category'' \<mapsto> Str ''no_negation'',
               ''sentence1'' \<mapsto> Str ''P one.'', ''sentence2'' \<mapsto> Str ''H one.'',
               ''gold_label'' \<mapsto> Str ''neutral'',
               ''sentence1_edited'' \<mapsto> Str ''P two.'', ''sentence2_edited'' \<mapsto> Str ''H two.'',
               ''gold_label_edited'' \<mapsto> Str ''entailment'']
   = as_example [''category'' \<mapsto> Str ''no_negation'',
               ''sentence1_edited'' \<mapsto> Str ''P two.'', ''sentence2_edited'' \<mapsto> Str ''H two.'',
               ''gold_label_edited'' \<mapsto> Str ''entailment'']"
proof -
  let ?r = "[''category'' \<mapsto> Str ''no_negation'',
               ''sentence1_edited'' \<mapsto> Str ''P two.'', ''sentence2_edited'' \<mapsto> Str ''H two.'',
               ''gold_label_edited'' \<mapsto> Str ''entailment'']"
  let ?r' = "[''category'' \<mapsto> Str ''no_negation'',
               ''sentence1'' \<mapsto> Str ''P one.'', ''sentence2'' \<mapsto> Str ''H one.'',
               ''gold_label'' \<mapsto> Str ''neutral'',
               ''sentence1_edited'' \<mapsto> Str ''P two.'', ''sentence2_edited'' \<mapsto> Str ''H two.'',
               ''gold_label_edited'' \<mapsto> Str ''entailment'']"
  have c: "?r ''category'' = Some (Str ''no_negation'')" by simp
  have s: "''_edited'' = (if Str ''no_negation'' = Str ''one_scoped'' then '''' else ''_edited'')"
    by simp
  note t = source_columns_by_category [of ?r "Str ''no_negation''" "''_edited''", OF c s]
  from t [THEN conjunct1, THEN spec, of ?r'] show ?thesis by simp
qed

text \<open>
  The claim C2 as it is written ends with "the \<^verbatim>\<open>_edited\<close> suffix applies to two
  source fields". On a row of another category than \<^verbatim>\<open>one_scoped\<close> that has all six
  columns, each with a different cell, the premise, the hypothesis and the label all
  come from the columns with the suffix: three source fields, not two.
\<close>

theorem suffix_on_three_fields:
  "as_example [''category'' \<mapsto> Str ''no_negation'',
               ''sentence1'' \<mapsto> Str ''P one.'', ''sentence2'' \<mapsto> Str ''H one.'',
               ''gold_label'' \<mapsto> Str ''neutral'',
               ''sentence1_edited'' \<mapsto> Str ''P two.'', ''sentence2_edited'' \<mapsto> Str ''H two.'',
               ''gold_label_edited'' \<mapsto> Str ''entailment'']
   = Inr \<lparr>ex_context = Str ''P two.'',
          ex_question = ''Can we logically conclude for sure that h two?'',
          ex_answer = ''Yes'', ex_category = Str ''no_negation'',
          input_keys = [''context'', ''question'']\<rparr>"
  by (simp add: as_example_def getitem_def suffix_of_def subscript0_def slice_from1_def
      py_lower_def lower_char_def py_strip_def with_inputs_def)

section \<open>Properties of the zero-shot module\<close>

text \<open>
  Claim C8. For every context and question, \<^verbatim>\<open>forward\<close> returns what the predictor
  stored by \<^verbatim>\<open>__init__\<close>, the external capability applied to \<^verbatim>\<open>ScoNeSignature\<close>,
  returns on these two fields, and leaves the world in the state in which that call
  leaves it. Run beside a log of the calls, \<^verbatim>\<open>forward\<close> adds exactly one entry, the
  pair of its two arguments: one call, no retry. The module has one field, the
  predictor; \<^verbatim>\<open>forward\<close> reads it and writes nothing to the module.
\<close>

theorem forward_is_one_call:
  "forward self ctx question w = generate_answer self ctx question w
   \<and> forward (init ChainOfThought) ctx question w = ChainOfThought ScoNeSignature ctx question w
   \<and> forward (init (\<lambda>sg. logged (ChainOfThought sg))) ctx question (w, calls) =
       (fst (ChainOfThought ScoNeSignature ctx question w),
        (snd (ChainOfThought ScoNeSignature ctx question w), calls @ [(ctx, question)]))"
  by (simp add: forward_def init_def logged_def split_beta)

section \<open>Properties of the train and dev samples\<close>

lemma swap_in_range:
  assumes "i < length x" and "j < length x"
  shows "\<exists>y. swap i j x = Inr y \<and> length y = length x \<and> mset y = mset x"
  using assms by (simp add: swap_def mset_swap)

lemma shuffle_from_ok:
  assumes "\<forall>n g. 0 < n \<longrightarrow> fst (randbelow n g) < n"
    and "k < length x \<or> k = 0"
  shows "\<exists>y g'. shuffle_from randbelow k x g = (Inr y, g')
                \<and> length y = length x \<and> mset y = mset x"
  using assms(2)
proof (induction k arbitrary: x g)
  case 0
  then show ?case by simp
next
  case (Suc k)
  obtain j g1 where r: "randbelow (Suc k + 1) g = (j, g1)"
    by (cases "randbelow (Suc k + 1) g")
  have "fst (randbelow (Suc k + 1) g) < Suc k + 1"
    using assms(1) by simp
  with r have j: "j < length x" using Suc.prems by simp
  have i: "Suc k < length x" using Suc.prems by simp
  from swap_in_range [OF i j]
  obtain y where y: "swap (Suc k) j x = Inr y" "length y = length x" "mset y = mset x"
    by blast
  have "k < length y \<or> k = 0" using i y(2) by simp
  from Suc.IH [OF this, of g1]
  obtain z g2 where z: "shuffle_from randbelow k y g1 = (Inr z, g2)"
    "length z = length y" "mset z = mset y"
    by blast
  show ?case using r y z by simp
qed

lemma shuffle_ok:
  assumes "\<forall>n g. 0 < n \<longrightarrow> fst (randbelow n g) < n"
  shows "\<exists>y g'. shuffle randbelow x g = (Inr y, g') \<and> length y = length x \<and> mset y = mset x"
proof -
  have "length x - 1 < length x \<or> length x - 1 = 0" by (cases x) simp_all
  from shuffle_from_ok [OF assms this] show ?thesis by (simp add: shuffle_def)
qed

text \<open>
  Claim C7. With the generator seeded with 1 just before the shuffle, the train and
  dev samples taken from a list of 250 examples are the same in any two runs on the
  same list, whatever state the generator was in before the cell; and, the generator
  drawing below its bound, the cell raises nothing, train has 200 examples, dev has
  50, and together they hold the examples of the list, each as often as the list does.
\<close>

theorem train_dev_reproducible:
  assumes "length all_train = 250"
    and "\<forall>n g. 0 < n \<longrightarrow> fst (randbelow n g) < n"
  shows "train_dev seed randbelow all_train g = train_dev seed randbelow all_train g'
       \<and> (\<exists>train dev g2.
             train_dev seed randbelow all_train g = (Inr (train, dev), g2)
           \<and> length train = 200 \<and> length dev = 50
           \<and> mset (train @ dev) = mset all_train)"
proof -
  from shuffle_ok [OF assms(2), of all_train "seed 1"]
  obtain y g2 where y: "shuffle randbelow all_train (seed 1) = (Inr y, g2)"
    "length y = length all_train" "mset y = mset all_train"
    by blast
  have t: "train_dev seed randbelow all_train g = (Inr (take 200 y, take 50 (drop 200 y)), g2)"
    using y(1) by (simp add: train_dev_def)
  have "take 200 y @ take 50 (drop 200 y) = take 250 y"
    using take_add [of 200 50 y] by simp
  then have m: "mset (take 200 y @ take 50 (drop 200 y)) = mset all_train"
    using y(2) y(3) assms(1) by simp
  have l: "length (take 200 y) = 200" "length (take 50 (drop 200 y)) = 50"
    using y(2) assms(1) by simp_all
  have d: "train_dev seed randbelow all_train g = train_dev seed randbelow all_train g'"
    by (simp add: train_dev_def)
  from t m l d show ?thesis by blast
qed

theorem train_dev_reproducible_witness:
  "train_dev (\<lambda>s. nat s) (\<lambda>n g. (g mod n, Suc g)) [0..<250] 0
     = train_dev (\<lambda>s. nat s) (\<lambda>n g. (g mod n, Suc g)) [0..<250] 7
   \<and> (\<exists>train dev g2.
         train_dev (\<lambda>s. nat s) (\<lambda>n g. (g mod n, Suc g)) [0..<250] 0 = (Inr (train, dev), g2)
       \<and> length train = 200 \<and> length dev = 50
       \<and> mset (train @ dev) = mset [0..<250])"
proof -
  have l: "length [0..<250] = 250" by simp
  have b: "\<forall>n g. 0 < n \<longrightarrow> fst ((\<lambda>n g. (g mod n, Suc g)) n g) < n" by simp
  from train_dev_reproducible [OF l b, of "\<lambda>s. nat s" 0 7] show ?thesis .
qed

section \<open>Properties of \<^verbatim>\<open>load_scone\<close>\<close>

subsection \<open>Calling a function on every row\<close>

lemma map_err_Inr_D: "map_err f xs = Inr ys \<Longrightarrow> list_all2 (\<lambda>x y. f x = Inr y) xs ys"
  by (induction xs arbitrary: ys) (auto split: sum.splits)

lemma map_err_Inr_I: "list_all2 (\<lambda>x y. f x = Inr y) xs ys \<Longrightarrow> map_err f xs = Inr ys"
  by (induction xs ys rule: list_all2_induct) auto

lemma map_err_Inr_iff: "map_err f xs = Inr ys \<longleftrightarrow> list_all2 (\<lambda>x y. f x = Inr y) xs ys"
  by (blast intro: map_err_Inr_D map_err_Inr_I)

lemma map_err_length: "map_err f xs = Inr ys \<Longrightarrow> length ys = length xs"
  by (simp add: map_err_Inr_iff list_all2_lengthD)

lemma map_err_all_Inr:
  assumes "map_err f xs = Inr ys" and "x \<in> set xs"
  shows "\<exists>y. f x = Inr y"
  using assms unfolding map_err_Inr_iff
  by (induction xs ys rule: list_all2_induct) auto

lemma map_err_total:
  assumes "\<forall>x\<in>set xs. \<exists>y. f x = Inr y"
  shows "\<exists>ys. map_err f xs = Inr ys"
  using assms by (induction xs) auto

lemma not_Inr_is_Inl: "(\<forall>y. v \<noteq> Inr y) \<Longrightarrow> \<exists>e. v = Inl e"
  by (cases v) auto

subsection \<open>Columns and rows of the concatenated frame\<close>

lemma set_union_cols: "set (union_cols acc cs) = set acc \<union> set cs"
  by (induction cs arbitrary: acc) auto

lemma set_foldl_union_cols:
  "set (foldl union_cols acc css) = set acc \<union> (\<Union>cs\<in>set css. set cs)"
  by (induction css arbitrary: acc) (auto simp: set_union_cols)

lemma set_all_columns: "set (all_columns dfs) = (\<Union>df\<in>set dfs. set (columns df))"
  by (simp add: all_columns_def set_foldl_union_cols)

lemma columns_set_column: "set (columns (set_column k v df)) = insert k (set (columns df))"
  by (auto simp: set_column_def)

lemma rows_set_column: "rows (set_column k v df) = map (\<lambda>r. r(k \<mapsto> v)) (rows df)"
  by (simp add: set_column_def)

lemma reindex_row_Some:
  "reindex_row cols r k = Some v \<longleftrightarrow> k \<in> set cols \<and> v = (case r k of None \<Rightarrow> NaN | Some w \<Rightarrow> w)"
  by (auto simp: reindex_row_def)

lemma reindex_row_mono:
  assumes "set cols \<subseteq> set cols'" and "reindex_row cols r k = Some v"
  shows "reindex_row cols' r k = Some v"
  using assms by (auto simp: reindex_row_Some)

lemma as_example_mono:
  assumes "as_example r = Inr ex" and "\<And>k v. r k = Some v \<Longrightarrow> r' k = Some v"
  shows "as_example r' = Inr ex"
proof -
  from as_example_Inr_D [OF assms(1)]
  obtain cat c t g p where
    c: "r ''category'' = Some cat" and
    h: "r (''sentence2'' @ suffix_of cat) = Some (Str (c # t))" and
    g: "r (''gold_label'' @ suffix_of cat) = Some g" and
    p: "r (''sentence1'' @ suffix_of cat) = Some p"
    by blast
  have "as_example r' = as_example r"
    unfolding as_example_success [OF c h g p]
    by (rule as_example_success) (rule assms(2), fact)+
  with assms(1) show ?thesis by simp
qed

subsection \<open>Reading the files\<close>

lemma read_frames_Inr_D:
  "read_frames read_csv fs = Inr dfs \<Longrightarrow>
     list_all2 (\<lambda>f d. \<exists>df. read_csv f = Inr df
                   \<and> d = set_column ''category'' (Str (category_of f)) df) fs dfs"
  by (induction fs arbitrary: dfs) (auto split: sum.splits)

lemma read_frames_Inr_I:
  "list_all2 (\<lambda>f d. \<exists>df. read_csv f = Inr df
                   \<and> d = set_column ''category'' (Str (category_of f)) df) fs dfs
   \<Longrightarrow> read_frames read_csv fs = Inr dfs"
  by (induction fs dfs rule: list_all2_induct) auto

lemma read_frames_Inr_iff:
  "read_frames read_csv fs = Inr dfs \<longleftrightarrow>
     list_all2 (\<lambda>f d. \<exists>df. read_csv f = Inr df
                   \<and> d = set_column ''category'' (Str (category_of f)) df) fs dfs"
  by (blast intro: read_frames_Inr_D read_frames_Inr_I)

lemma read_frames_Inl:
  assumes "f \<in> set fs" and "read_csv f = Inl e"
  shows "\<exists>e'. read_frames read_csv fs = Inl e'"
proof (rule not_Inr_is_Inl, intro allI notI)
  fix dfs
  assume "read_frames read_csv fs = Inr dfs"
  then have "list_all2 (\<lambda>f d. \<exists>df. read_csv f = Inr df
                   \<and> d = set_column ''category'' (Str (category_of f)) df) fs dfs"
    by (simp only: read_frames_Inr_iff)
  then have "\<exists>df. read_csv f = Inr df"
    using assms(1) by (induction fs dfs rule: list_all2_induct) auto
  with assms(2) show False by simp
qed

lemma read_frames_total:
  assumes "\<forall>f\<in>set fs. \<exists>df. read_csv f = Inr df"
  shows "\<exists>dfs. read_frames read_csv fs = Inr dfs"
  using assms by (induction fs) auto

lemma read_frames_rows:
  assumes "read_frames read_csv fs = Inr dfs"
  shows "length (concat (map (reindex cols) dfs)) = total_rows read_csv fs"
  using assms unfolding read_frames_Inr_iff
  by (induction fs dfs rule: list_all2_induct)
     (auto simp: total_rows_def reindex_def rows_set_column)

lemma set_reindex_set_column:
  "set (reindex cols (set_column k v df)) = (\<lambda>r. reindex_row cols (r(k \<mapsto> v))) ` set (rows df)"
  by (simp only: reindex_def rows_set_column set_map image_image)

lemma read_frames_row_in:
  assumes "read_frames read_csv fs = Inr dfs"
    and "f \<in> set fs" and "read_csv f = Inr df" and "r \<in> set (rows df)"
  shows "reindex_row cols (r(''category'' \<mapsto> Str (category_of f)))
           \<in> set (concat (map (reindex cols) dfs))"
  using assms(1) [THEN read_frames_Inr_D] assms(2)
proof (induction fs dfs rule: list_all2_induct)
  case Nil
  then show ?case by simp
next
  case (Cons f0 fs d dfs)
  show ?case
  proof (cases "f = f0")
    case True
    with Cons.hyps(1) assms(3)
    have "d = set_column ''category'' (Str (category_of f)) df" by auto
    then have "reindex_row cols (r(''category'' \<mapsto> Str (category_of f))) \<in> set (reindex cols d)"
      using assms(4) by (simp only: set_reindex_set_column) (rule imageI)
    then show ?thesis
      unfolding list.map concat.simps set_append by (rule UnI1)
  next
    case False
    with Cons.prems have "f \<in> set fs" by simp
    from Cons.IH [OF this] show ?thesis
      unfolding list.map concat.simps set_append by (rule UnI2)
  qed
qed

lemma read_frames_row_out:
  assumes "read_frames read_csv fs = Inr dfs"
    and "x \<in> set (concat (map (reindex cols) dfs))"
  shows "\<exists>f df r. f \<in> set fs \<and> read_csv f = Inr df \<and> r \<in> set (rows df)
            \<and> x = reindex_row cols (r(''category'' \<mapsto> Str (category_of f)))"
  using assms(1) [THEN read_frames_Inr_D] assms(2)
proof (induction fs dfs rule: list_all2_induct)
  case Nil
  then show ?case by simp
next
  case (Cons f0 fs d dfs)
  from Cons.prems have "x \<in> set (reindex cols d) \<or> x \<in> set (concat (map (reindex cols) dfs))"
    by simp
  then show ?case
  proof
    assume x: "x \<in> set (reindex cols d)"
    from Cons.hyps(1) obtain df where
      df: "read_csv f0 = Inr df" "d = set_column ''category'' (Str (category_of f0)) df"
      by blast
    from x obtain r where "r \<in> set (rows df)"
      "x = reindex_row cols (r(''category'' \<mapsto> Str (category_of f0)))"
      unfolding df(2) set_reindex_set_column by blast
    with df(1) show ?thesis by (blast intro: list.set_intros)
  next
    assume "x \<in> set (concat (map (reindex cols) dfs))"
    from Cons.IH [OF this] obtain f df r where
      "f \<in> set fs" "read_csv f = Inr df" "r \<in> set (rows df)"
      "x = reindex_row cols (r(''category'' \<mapsto> Str (category_of f)))"
      by blast
    then show ?thesis by (blast intro: list.set_intros)
  qed
qed

lemma read_frames_columns:
  assumes "read_frames read_csv fs = Inr dfs"
  shows "k \<in> set (all_columns dfs) \<longleftrightarrow>
           (fs \<noteq> [] \<and> k = ''category'') \<or> has_column read_csv fs k"
  using assms unfolding read_frames_Inr_iff set_all_columns
  by (induction fs dfs rule: list_all2_induct)
     (auto simp: has_column_def columns_set_column)

lemma load_scone_Inr_iff:
  "load_scone glob read_csv d = Inr exs \<longleftrightarrow>
     (\<exists>dfs. read_frames read_csv (glob (d @ ''/*.csv'')) = Inr dfs \<and> dfs \<noteq> []
          \<and> map_err as_example (concat (map (reindex (all_columns dfs)) dfs)) = Inr exs)"
  by (auto simp: load_scone_def concat_frames_def apply_axis1_def Let_def split: sum.splits)

lemma concat_reindex: "concat (map (reindex cols) dfs) = map (reindex_row cols) (concat (map rows dfs))"
  by (induction dfs) (simp_all add: reindex_def)

lemma selected_key_not_category:
  "''sentence2'' @ s \<noteq> ''category''" "''gold_label'' @ s \<noteq> ''category''"
  "''sentence1'' @ s \<noteq> ''category''"
  by simp_all

lemma loaded_row_category:
  assumes "''category'' \<in> set cols"
  shows "reindex_row cols (r(''category'' \<mapsto> v)) ''category'' = Some v"
  using assms by (simp add: reindex_row_def)

lemma loaded_row_other:
  assumes "k \<noteq> ''category''"
  shows "reindex_row cols (r(''category'' \<mapsto> v)) k = reindex_row cols r k"
  using assms by (simp add: reindex_row_def)

lemma valid_row_loads:
  assumes "valid_row f df r"
    and "set (columns df) \<subseteq> set cols"
    and "''category'' \<in> set cols"
  shows "\<exists>ex. as_example (reindex_row cols (r(''category'' \<mapsto> Str (category_of f)))) = Inr ex"
proof -
  let ?cat = "Str (category_of f)"
  let ?x = "reindex_row cols (r(''category'' \<mapsto> ?cat))"
  let ?s = "suffix_of ?cat"
  from assms(1) have
    k: "''sentence2'' @ ?s \<in> set (columns df)" "''gold_label'' @ ?s \<in> set (columns df)"
       "''sentence1'' @ ?s \<in> set (columns df)" and
    n: "nonempty_str (r (''sentence2'' @ ?s))" and
    v: "r (''gold_label'' @ ?s) \<noteq> None" "r (''sentence1'' @ ?s) \<noteq> None"
    by (simp_all add: valid_row_def Let_def)
  from n obtain c t where h: "r (''sentence2'' @ ?s) = Some (Str (c # t))"
    by (auto simp: nonempty_str_def split: option.splits cell.splits list.splits)
  from v obtain g p where g: "r (''gold_label'' @ ?s) = Some g" and p: "r (''sentence1'' @ ?s) = Some p"
    by auto
  have xc: "?x ''category'' = Some ?cat"
    by (rule loaded_row_category [OF assms(3)])
  have xh: "?x (''sentence2'' @ ?s) = Some (Str (c # t))"
    using k(1) assms(2) h
    by (simp only: loaded_row_other [OF selected_key_not_category(1)] reindex_row_Some) auto
  have xg: "?x (''gold_label'' @ ?s) = Some g"
    using k(2) assms(2) g
    by (simp only: loaded_row_other [OF selected_key_not_category(2)] reindex_row_Some) auto
  have xp: "?x (''sentence1'' @ ?s) = Some p"
    using k(3) assms(2) p
    by (simp only: loaded_row_other [OF selected_key_not_category(3)] reindex_row_Some) auto
  from as_example_success [OF xc xh xg xp] show ?thesis by blast
qed

lemma has_column_I:
  assumes "f \<in> set fs" and "read_csv f = Inr df" and "k \<in> set (columns df)"
  shows "has_column read_csv fs k"
  using assms by (auto simp: has_column_def list_ex_iff intro!: bexI [of _ f])

subsection \<open>One Example for every row\<close>

text \<open>
  Claim C4. Whenever \<^verbatim>\<open>load_scone\<close> returns, it returns as many Examples as the
  files of the directory have data rows: no row is dropped. And on a directory with
  at least one file, all of whose rows are valid, it does return, so \<open>N\<close> valid rows
  give exactly \<open>N\<close> Examples.
\<close>

theorem one_example_per_row:
  assumes "files = glob (dirname @ ''/*.csv'')"
  shows "(\<forall>exs. load_scone glob read_csv dirname = Inr exs
              \<longrightarrow> length exs = total_rows read_csv files)
       \<and> (files \<noteq> [] \<and> list_all (valid_file read_csv) files
            \<longrightarrow> (\<exists>exs. load_scone glob read_csv dirname = Inr exs
                      \<and> length exs = total_rows read_csv files))"
proof -
  have len: "length exs = total_rows read_csv files"
    if "load_scone glob read_csv dirname = Inr exs" for exs
  proof -
    from that obtain dfs where
      r: "read_frames read_csv files = Inr dfs" and
      m: "map_err as_example (concat (map (reindex (all_columns dfs)) dfs)) = Inr exs"
      unfolding load_scone_Inr_iff assms by blast
    from map_err_length [OF m] read_frames_rows [OF r] show ?thesis by simp
  qed
  have ok: "\<exists>exs. load_scone glob read_csv dirname = Inr exs"
    if ne: "files \<noteq> []" and va: "list_all (valid_file read_csv) files"
  proof -
    have rd: "\<forall>f\<in>set files. \<exists>df. read_csv f = Inr df"
    proof
      fix f
      assume "f \<in> set files"
      with va have "valid_file read_csv f" by (simp add: list_all_iff)
      then show "\<exists>df. read_csv f = Inr df"
        by (cases "read_csv f") (simp_all add: valid_file_def)
    qed
    from read_frames_total [OF rd] obtain dfs where
      r: "read_frames read_csv files = Inr dfs" by blast
    from read_frames_Inr_D [OF r] ne have dne: "dfs \<noteq> []" by auto
    let ?cols = "all_columns dfs"
    have cat: "''category'' \<in> set ?cols"
      using read_frames_columns [OF r] ne by simp
    have "\<exists>ex. as_example x = Inr ex" if "x \<in> set (concat (map (reindex ?cols) dfs))" for x
    proof -
      from read_frames_row_out [OF r that] obtain f df rw where
        f: "f \<in> set files" "read_csv f = Inr df" "rw \<in> set (rows df)" and
        x: "x = reindex_row ?cols (rw(''category'' \<mapsto> Str (category_of f)))"
        by blast
      from va f have v: "valid_row f df rw"
        by (auto simp: list_all_iff valid_file_def)
      have "set (columns df) \<subseteq> set ?cols"
      proof
        fix k
        assume "k \<in> set (columns df)"
        with f(1) f(2) have "has_column read_csv files k" by (rule has_column_I)
        then show "k \<in> set ?cols" using read_frames_columns [OF r] by simp
      qed
      from valid_row_loads [OF v this cat] x show ?thesis by simp
    qed
    then have "\<exists>exs. map_err as_example (concat (map (reindex ?cols) dfs)) = Inr exs"
      by (intro map_err_total) blast
    with r dne show ?thesis
      unfolding load_scone_Inr_iff assms by blast
  qed
  from len ok show ?thesis by blast
qed

theorem one_example_per_row_witness:
  "\<exists>exs. load_scone (\<lambda>pattern. [''ScoNe/train/one_scoped.csv'', ''ScoNe/train/no_negation.csv''])
            sample_read_csv ''ScoNe/train'' = Inr exs
       \<and> length exs = 3"
proof -
  let ?glob = "\<lambda>pattern :: string. [''ScoNe/train/one_scoped.csv'', ''ScoNe/train/no_negation.csv'']"
  let ?files = "[''ScoNe/train/one_scoped.csv'', ''ScoNe/train/no_negation.csv'']"
  have f: "?files = ?glob (''ScoNe/train'' @ ''/*.csv'')" by simp
  have v: "?files \<noteq> [] \<and> list_all (valid_file sample_read_csv) ?files"
    by (simp add: valid_file_def valid_row_def nonempty_str_def sample_read_csv_def
        category_of_def basename_def suffix_of_def)
  have n: "total_rows sample_read_csv ?files = 3"
    by (simp add: total_rows_def sample_read_csv_def)
  from one_example_per_row [OF f, of sample_read_csv, THEN conjunct2, rule_format, OF v]
  show ?thesis unfolding n .
qed

subsection \<open>A file without data rows\<close>

text \<open>
  Claim C5. A file that has a header and no data row is loaded without an error and
  gives no Example: a directory that holds only this file loads as the empty list,
  and a directory that loads as \<open>exs\<close> without the file loads as \<open>exs\<close> with it,
  wherever the enumeration puts it.
\<close>

theorem header_only_file:
  assumes "read_csv f = Inr df" and "rows df = []"
  shows "(glob (dirname @ ''/*.csv'') = [f] \<longrightarrow> load_scone glob read_csv dirname = Inr [])
       \<and> (\<forall>fs1 fs2 exs.
             glob (dirname @ ''/*.csv'') = fs1 @ f # fs2
           \<and> load_scone (\<lambda>pattern. fs1 @ fs2) read_csv dirname = Inr exs
           \<longrightarrow> load_scone glob read_csv dirname = Inr exs)"
proof (intro conjI allI impI)
  assume "glob (dirname @ ''/*.csv'') = [f]"
  then show "load_scone glob read_csv dirname = Inr []"
    using assms
    by (simp add: load_scone_def concat_frames_def apply_axis1_def reindex_def rows_set_column)
next
  fix fs1 fs2 exs
  assume a: "glob (dirname @ ''/*.csv'') = fs1 @ f # fs2
           \<and> load_scone (\<lambda>pattern. fs1 @ fs2) read_csv dirname = Inr exs"
  let ?P = "\<lambda>f d. \<exists>df. read_csv f = Inr df \<and> d = set_column ''category'' (Str (category_of f)) df"
  let ?t = "set_column ''category'' (Str (category_of f)) df"
  from a obtain dfs where
    r: "read_frames read_csv (fs1 @ fs2) = Inr dfs" and
    m: "map_err as_example (concat (map (reindex (all_columns dfs)) dfs)) = Inr exs"
    unfolding load_scone_Inr_iff by blast
  from read_frames_Inr_D [OF r] obtain us vs where
    d: "dfs = us @ vs" and u: "list_all2 ?P fs1 us" and v: "list_all2 ?P fs2 vs"
    unfolding list_all2_append1 by blast
  have "list_all2 ?P (fs1 @ f # fs2) (us @ ?t # vs)"
    using u v assms(1) by (intro list_all2_appendI list_all2_Cons [THEN iffD2]) simp_all
  then have r': "read_frames read_csv (fs1 @ f # fs2) = Inr (us @ ?t # vs)"
    by (rule read_frames_Inr_I)
  let ?cols = "all_columns dfs"
  let ?cols' = "all_columns (us @ ?t # vs)"
  have sub: "set ?cols \<subseteq> set ?cols'"
    unfolding set_all_columns d by auto
  have same: "concat (map rows (us @ ?t # vs)) = concat (map rows dfs)"
    using assms(2) by (simp add: d rows_set_column)
  from m have "list_all2 (\<lambda>rw ex. as_example (reindex_row ?cols rw) = Inr ex)
                 (concat (map rows dfs)) exs"
    unfolding map_err_Inr_iff concat_reindex list_all2_map1 .
  then have "list_all2 (\<lambda>rw ex. as_example (reindex_row ?cols' rw) = Inr ex)
                 (concat (map rows dfs)) exs"
  proof (rule list_all2_mono)
    fix rw ex
    assume "as_example (reindex_row ?cols rw) = Inr ex"
    then show "as_example (reindex_row ?cols' rw) = Inr ex"
      by (rule as_example_mono) (rule reindex_row_mono [OF sub])
  qed
  then have "map_err as_example (concat (map (reindex ?cols') (us @ ?t # vs))) = Inr exs"
    unfolding map_err_Inr_iff concat_reindex list_all2_map1 same .
  with r' a show "load_scone glob read_csv dirname = Inr exs"
    unfolding load_scone_Inr_iff by auto
qed

theorem header_only_file_witness:
  "load_scone (\<lambda>pattern. [''ScoNe/train/header_only.csv'']) sample_read_csv ''ScoNe/train'' = Inr []
   \<and> load_scone (\<lambda>pattern. [''ScoNe/train/one_scoped.csv'', ''ScoNe/train/header_only.csv'',
                              ''ScoNe/train/no_negation.csv''])
        sample_read_csv ''ScoNe/train''
     = load_scone (\<lambda>pattern. [''ScoNe/train/one_scoped.csv'', ''ScoNe/train/no_negation.csv''])
        sample_read_csv ''ScoNe/train''"
proof -
  let ?exs = "[\<lparr>ex_context = Str ''The man does not own a dog.'',
               ex_question =
                 ''Can we logically conclude for sure that the man does not own a poodle?'',
               ex_answer = ''Yes'', ex_category = Str ''one_scoped'',
               input_keys = [''context'', ''question'']\<rparr>,
              \<lparr>ex_context = Str ''The man does not own a poodle.'',
               ex_question =
                 ''Can we logically conclude for sure that the man does not own a dog?'',
               ex_answer = ''No'', ex_category = Str ''one_scoped'',
               input_keys = [''context'', ''question'']\<rparr>,
              \<lparr>ex_context = Str ''A man owns a poodle.'',
               ex_question = ''Can we logically conclude for sure that a man owns a dog?'',
               ex_answer = ''Yes'', ex_category = Str ''no_negation'',
               input_keys = [''context'', ''question'']\<rparr>]"
  let ?h = "''ScoNe/train/header_only.csv''"
  let ?df = "\<lparr>columns = [''sentence1_edited'', ''sentence2_edited'', ''gold_label_edited''],
             rows = []\<rparr>"
  have rd: "sample_read_csv ?h = Inr ?df" by (simp add: sample_read_csv_def)
  have em: "rows ?df = []" by simp
  have l: "load_scone (\<lambda>pattern. [''ScoNe/train/one_scoped.csv'', ''ScoNe/train/no_negation.csv''])
             sample_read_csv ''ScoNe/train'' = Inr ?exs"
    by (simp add: load_scone_def sample_read_csv_def set_column_def category_of_def basename_def
        concat_frames_def all_columns_def reindex_def reindex_row_def apply_axis1_def
        as_example_def getitem_def suffix_of_def subscript0_def slice_from1_def
        py_lower_def lower_char_def py_strip_def with_inputs_def)
  note t = header_only_file [of sample_read_csv ?h ?df, OF rd em]
  have 1: "load_scone (\<lambda>pattern. [?h]) sample_read_csv ''ScoNe/train'' = Inr []"
    by (rule t [THEN conjunct1, rule_format]) simp
  have 2: "load_scone (\<lambda>pattern. [''ScoNe/train/one_scoped.csv'', ?h, ''ScoNe/train/no_negation.csv''])
             sample_read_csv ''ScoNe/train'' = Inr ?exs"
    by (rule t [THEN conjunct2, rule_format, of _ _ "[''ScoNe/train/one_scoped.csv'']"
          "[''ScoNe/train/no_negation.csv'']"]) (simp add: l)
  from 1 2 l show ?thesis by simp
qed

subsection \<open>Rows and files that make the loader fail\<close>

lemma loaded_row_facts:
  assumes "load_scone glob read_csv dirname = Inr exs"
    and "files = glob (dirname @ ''/*.csv'')"
    and "f \<in> set files" and "read_csv f = Inr df" and "r \<in> set (rows df)"
    and "sfx = suffix_of (Str (category_of f))"
  shows "nonempty_str (r (''sentence2'' @ sfx))
       \<and> has_column read_csv files (''gold_label'' @ sfx)
       \<and> has_column read_csv files (''sentence1'' @ sfx)"
proof -
  let ?cat = "Str (category_of f)"
  from assms(1) obtain dfs where
    rf: "read_frames read_csv files = Inr dfs" and
    m: "map_err as_example (concat (map (reindex (all_columns dfs)) dfs)) = Inr exs"
    unfolding load_scone_Inr_iff assms(2) by blast
  let ?cols = "all_columns dfs"
  let ?x = "reindex_row ?cols (r(''category'' \<mapsto> ?cat))"
  have "?x \<in> set (concat (map (reindex ?cols) dfs))"
    by (rule read_frames_row_in [OF rf assms(3) assms(4) assms(5)])
  from map_err_all_Inr [OF m this] obtain ex where "as_example ?x = Inr ex" by blast
  from as_example_Inr_D [OF this] obtain cat c t g p where
    xc: "?x ''category'' = Some cat" and
    xh: "?x (''sentence2'' @ suffix_of cat) = Some (Str (c # t))" and
    xg: "?x (''gold_label'' @ suffix_of cat) = Some g" and
    xp: "?x (''sentence1'' @ suffix_of cat) = Some p"
    by blast
  from xc have "cat = ?cat"
    by (simp add: reindex_row_def split: if_splits)
  then have s: "suffix_of cat = sfx" using assms(6) by simp
  from xh have "reindex_row ?cols r (''sentence2'' @ sfx) = Some (Str (c # t))"
    unfolding s loaded_row_other [OF selected_key_not_category(1)] .
  then have "r (''sentence2'' @ sfx) = Some (Str (c # t))"
    by (auto simp: reindex_row_Some split: option.splits)
  then have 1: "nonempty_str (r (''sentence2'' @ sfx))"
    by (simp add: nonempty_str_def)
  from xg have "''gold_label'' @ sfx \<in> set ?cols"
    unfolding s by (simp add: reindex_row_def split: if_splits)
  then have 2: "has_column read_csv files (''gold_label'' @ sfx)"
    using read_frames_columns [OF rf, of "''gold_label'' @ sfx"] by simp
  from xp have "''sentence1'' @ sfx \<in> set ?cols"
    unfolding s by (simp add: reindex_row_def split: if_splits)
  then have 3: "has_column read_csv files (''sentence1'' @ sfx)"
    using read_frames_columns [OF rf, of "''sentence1'' @ sfx"] by simp
  from 1 2 3 show ?thesis by blast
qed

text \<open>
  Claim C6, as amended. \<^verbatim>\<open>load_scone\<close> raises an error, which nothing in it
  catches, in each of these cases: reading one of the files raises; a row has no
  string with at least one character in the hypothesis column that its category
  selects (a file without that column has no cell there at all, and a row cut short
  has \<^verbatim>\<open>NaN\<close>); a row's category selects a label or a premise column that no file
  of the directory has. And whenever it returns, it returns one Example for every
  data row of every file, so it never returns a collection with rows left out.
\<close>

theorem loader_failures:
  assumes "files = glob (dirname @ ''/*.csv'')"
  shows "((\<exists>f\<in>set files. \<exists>e. read_csv f = Inl e)
            \<longrightarrow> (\<exists>e. load_scone glob read_csv dirname = Inl e))
       \<and> (\<forall>f\<in>set files. \<forall>df. read_csv f = Inr df \<longrightarrow>
            (\<forall>r\<in>set (rows df).
               \<not> nonempty_str (r (''sentence2'' @ suffix_of (Str (category_of f))))
             \<or> \<not> has_column read_csv files (''gold_label'' @ suffix_of (Str (category_of f)))
             \<or> \<not> has_column read_csv files (''sentence1'' @ suffix_of (Str (category_of f)))
             \<longrightarrow> (\<exists>e. load_scone glob read_csv dirname = Inl e)))
       \<and> (\<forall>exs. load_scone glob read_csv dirname = Inr exs
              \<longrightarrow> length exs = total_rows read_csv files)"
proof (intro conjI ballI allI impI)
  assume "\<exists>f\<in>set files. \<exists>e. read_csv f = Inl e"
  then obtain f e where "f \<in> set files" "read_csv f = Inl e" by blast
  then have "\<exists>e'. read_frames read_csv files = Inl e'" by (rule read_frames_Inl)
  then obtain e' where "read_frames read_csv files = Inl e'" by blast
  then show "\<exists>e. load_scone glob read_csv dirname = Inl e"
    by (simp add: load_scone_def assms)
next
  fix f df r
  assume f: "f \<in> set files" "read_csv f = Inr df" "r \<in> set (rows df)"
    and bad: "\<not> nonempty_str (r (''sentence2'' @ suffix_of (Str (category_of f))))
             \<or> \<not> has_column read_csv files (''gold_label'' @ suffix_of (Str (category_of f)))
             \<or> \<not> has_column read_csv files (''sentence1'' @ suffix_of (Str (category_of f)))"
  show "\<exists>e. load_scone glob read_csv dirname = Inl e"
  proof (rule not_Inr_is_Inl, intro allI notI)
    fix exs
    assume "load_scone glob read_csv dirname = Inr exs"
    then have "nonempty_str (r (''sentence2'' @ suffix_of (Str (category_of f))))
       \<and> has_column read_csv files (''gold_label'' @ suffix_of (Str (category_of f)))
       \<and> has_column read_csv files (''sentence1'' @ suffix_of (Str (category_of f)))"
      using assms f by (rule loaded_row_facts) simp
    with bad show False by blast
  qed
next
  fix exs
  assume "load_scone glob read_csv dirname = Inr exs"
  then show "length exs = total_rows read_csv files"
    unfolding load_scone_Inr_iff assms
    using map_err_length read_frames_rows by fastforce
qed

theorem loader_failures_witness:
  "\<exists>e. load_scone (\<lambda>pattern. [''ScoNe/train/no_negation.csv'', ''ScoNe/train/no_hypothesis.csv''])
          sample_read_csv ''ScoNe/train'' = Inl e"
proof -
  let ?glob = "\<lambda>pattern :: string. [''ScoNe/train/no_negation.csv'', ''ScoNe/train/no_hypothesis.csv'']"
  let ?files = "[''ScoNe/train/no_negation.csv'', ''ScoNe/train/no_hypothesis.csv'']"
  let ?f = "''ScoNe/train/no_hypothesis.csv''"
  let ?r = "[''sentence1_edited'' \<mapsto> Str ''A man owns a poodle.'',
             ''sentence2_edited'' \<mapsto> NaN,
             ''gold_label_edited'' \<mapsto> Str ''entailment'']"
  let ?df = "\<lparr>columns = [''sentence1_edited'', ''sentence2_edited'', ''gold_label_edited''],
              rows = [?r]\<rparr>"
  have g: "?files = ?glob (''ScoNe/train'' @ ''/*.csv'')" by simp
  have f: "?f \<in> set ?files" by simp
  have d: "sample_read_csv ?f = Inr ?df" by (simp add: sample_read_csv_def)
  have r: "?r \<in> set (rows ?df)" by simp
  have b: "\<not> nonempty_str (?r (''sentence2'' @ suffix_of (Str (category_of ?f))))
         \<or> \<not> has_column sample_read_csv ?files (''gold_label'' @ suffix_of (Str (category_of ?f)))
         \<or> \<not> has_column sample_read_csv ?files (''sentence1'' @ suffix_of (Str (category_of ?f)))"
    by (simp add: nonempty_str_def suffix_of_def category_of_def basename_def)
  note t = loader_failures [of ?files ?glob "''ScoNe/train''" sample_read_csv, OF g]
  from t [THEN conjunct2, THEN conjunct1, rule_format, of ?f ?df ?r, OF f d r b]
  show ?thesis .
qed

text \<open>
  The claim C6 as it is written has the loader raise on every directory with a file
  that lacks one of the expected columns. In this directory the file
  \<^verbatim>\<open>no_label.csv\<close> has no column \<^verbatim>\<open>gold_label_edited\<close>, and the other file has
  it: the concatenated frame has the column, the row of \<^verbatim>\<open>no_label.csv\<close> holds
  \<^verbatim>\<open>NaN\<close> there, and the loader returns, with the answer "No" for that row.
\<close>

theorem missing_label_column_loads:
  "sample_read_csv ''ScoNe/train/no_label.csv'' =
     Inr \<lparr>columns = [''sentence1_edited'', ''sentence2_edited''],
          rows = [[''sentence1_edited'' \<mapsto> Str ''A man owns a poodle.'',
                   ''sentence2_edited'' \<mapsto> Str ''A man owns a dog.'']]\<rparr>
   \<and> load_scone (\<lambda>pattern. [''ScoNe/train/no_negation.csv'', ''ScoNe/train/no_label.csv''])
        sample_read_csv ''ScoNe/train''
     = Inr [\<lparr>ex_context = Str ''A man owns a poodle.'',
             ex_question = ''Can we logically conclude for sure that a man owns a dog?'',
             ex_answer = ''Yes'', ex_category = Str ''no_negation'',
             input_keys = [''context'', ''question'']\<rparr>,
            \<lparr>ex_context = Str ''A man owns a poodle.'',
             ex_question = ''Can we logically conclude for sure that a man owns a dog?'',
             ex_answer = ''No'', ex_category = Str ''no_label'',
             input_keys = [''context'', ''question'']\<rparr>]"
  by (simp add: load_scone_def sample_read_csv_def set_column_def category_of_def basename_def
      concat_frames_def all_columns_def reindex_def reindex_row_def apply_axis1_def
      as_example_def getitem_def suffix_of_def subscript0_def slice_from1_def
      py_lower_def lower_char_def py_strip_def with_inputs_def)

end
